theory Spec2Isabelle
  imports Main "HOL-Library.Sublist" "HOL-Library.Char_ord"
begin

section \<open>Strings\<close>

text \<open>
  A Go string is modelled by the list of its runes. The type \<open>char\<close> holds the code
  points U+0000 to U+00FF, so the model covers Latin-1 text; on it a byte offset of the
  source (always taken at a rune boundary) and a position in the list name the same place.

  The rune classes are those of the source and of the Go library on this range:
  \<open>isLowerAlnum\<close> is the test \<^verbatim>\<open>(r >= 'a' && r <= 'z') || (r >= '0' && r <= '9')\<close>
  of \<open>slugify\<close>, \<open>toLowerRune\<close> is \<^verbatim>\<open>unicode.ToLower\<close> (the ASCII capitals and the
  Latin-1 capitals U+00C0 to U+00DE without the multiplication sign, each moved up by 32),
  \<open>isSpace\<close> is \<^verbatim>\<open>unicode.IsSpace\<close> (tab to carriage return, space, U+0085, U+00A0).
\<close>

definition isDigit :: "char \<Rightarrow> bool" where
  "isDigit r = (CHR ''0'' \<le> r \<and> r \<le> CHR ''9'')"

definition isLowerAlnum :: "char \<Rightarrow> bool" where
  "isLowerAlnum r = ((r \<ge> CHR ''a'' \<and> r \<le> CHR ''z'') \<or> (r \<ge> CHR ''0'' \<and> r \<le> CHR ''9''))"

definition isUpper :: "char \<Rightarrow> bool" where
  "isUpper r = (let n = (of_char r :: nat) in
     (65 \<le> n \<and> n \<le> 90) \<or> (192 \<le> n \<and> n \<le> 222 \<and> n \<noteq> 215))"

definition toLowerRune :: "char \<Rightarrow> char" where
  "toLowerRune r = (if isUpper r then char_of ((of_char r :: nat) + 32) else r)"

definition isSpace :: "char \<Rightarrow> bool" where
  "isSpace r = (let n = (of_char r :: nat) in (9 \<le> n \<and> n \<le> 13) \<or> n = 32 \<or> n = 133 \<or> n = 160)"

text \<open>
  \<^verbatim>\<open>fmt.Sprintf("%d", i)\<close> and \<^verbatim>\<open>fmt.Sprint(count)\<close> on an integer: the decimal
  numeral, with a leading minus sign for a negative number.
\<close>

definition digitChar :: "nat \<Rightarrow> char" where
  "digitChar d = ''0123456789'' ! d"

fun natDigits :: "nat \<Rightarrow> string" where
  "natDigits n = (if n < 10 then [digitChar n] else natDigits (n div 10) @ [digitChar (n mod 10)])"

declare natDigits.simps [simp del]

definition itoa :: "int \<Rightarrow> string" where
  "itoa i = (if i < 0 then CHR ''-'' # natDigits (nat (- i)) else natDigits (nat i))"

text \<open>
  The functions of package \<^verbatim>\<open>strings\<close> that the source calls. \<open>index\<close> is
  \<^verbatim>\<open>strings.Index\<close> (\<open>None\<close> for the result -1), \<open>replaceAll\<close> replaces the
  non-overlapping occurrences from left to right (and, for an empty pattern, inserts the
  replacement before every rune and at the end, as the library does), \<open>trim\<close> is
  \<^verbatim>\<open>strings.Trim\<close> with a cutset.
\<close>

fun index :: "string \<Rightarrow> string \<Rightarrow> nat option" where
  "index [] substr = (if substr = [] then Some 0 else None)"
| "index (c # cs) substr =
     (if prefix substr (c # cs) then Some 0 else map_option Suc (index cs substr))"

definition contains :: "string \<Rightarrow> string \<Rightarrow> bool" where
  "contains s substr = (index s substr \<noteq> None)"

fun replaceAll :: "string \<Rightarrow> string \<Rightarrow> string \<Rightarrow> string" where
  "replaceAll s [] new = new @ concat (map (\<lambda>c. c # new) s)"
| "replaceAll [] (x # xs) new = []"
| "replaceAll (c # cs) (x # xs) new =
     (if prefix (x # xs) (c # cs) then new @ replaceAll (drop (length xs) cs) (x # xs) new
      else c # replaceAll cs (x # xs) new)"

definition trimSpace :: "string \<Rightarrow> string" where
  "trimSpace s = rev (dropWhile isSpace (rev (dropWhile isSpace s)))"

definition trim :: "string \<Rightarrow> string \<Rightarrow> string" where
  "trim s cutset = rev (dropWhile (\<lambda>c. c \<in> set cutset) (rev (dropWhile (\<lambda>c. c \<in> set cutset) s)))"

fun join :: "string list \<Rightarrow> string \<Rightarrow> string" where
  "join [] sep = []"
| "join [x] sep = x"
| "join (x # y # ys) sep = x @ sep @ join (y # ys) sep"

lemma replaceAll_length_le:
  "length new \<le> length old \<Longrightarrow> old \<noteq> [] \<Longrightarrow> length (replaceAll s old new) \<le> length s"
proof (induction s old new rule: replaceAll.induct)
  case (3 c cs x xs new)
  show ?case
  proof (cases "prefix (x # xs) (c # cs)")
    case True
    then have "length xs \<le> length cs" by (auto dest: prefix_length_le)
    moreover have "length (replaceAll (drop (length xs) cs) (x # xs) new) \<le> length cs - length xs"
      using "3.IH"(1) [OF True] "3.prems" by simp
    ultimately show ?thesis using True "3.prems" by simp
  next
    case False
    then show ?thesis using "3.IH"(2) "3.prems" by auto
  qed
qed auto

lemma replaceAll_length_less:
  "length new < length old \<Longrightarrow> contains s old \<Longrightarrow> length (replaceAll s old new) < length s"
proof (induction s old new rule: replaceAll.induct)
  case (3 c cs x xs new)
  show ?case
  proof (cases "prefix (x # xs) (c # cs)")
    case True
    have "length (replaceAll (drop (length xs) cs) (x # xs) new) \<le> length (drop (length xs) cs)"
      using "3.prems"(1) by (intro replaceAll_length_le) auto
    moreover have "length xs \<le> length cs" using True by (auto simp: prefix_def)
    ultimately show ?thesis using True "3.prems"(1) by auto
  next
    case False
    then have "contains cs (x # xs)" using "3.prems"(2) by (auto simp: contains_def)
    then show ?thesis using False "3.IH"(2) "3.prems"(1) by auto
  qed
qed (auto simp: contains_def)

text \<open>
  The two loops of \<open>slugify\<close> of the shape
  \<^verbatim>\<open>for strings.Contains(s, "  ") { s = strings.ReplaceAll(s, "  ", " ") }\<close>.
  Each round shortens the string, which is the termination argument.
\<close>

function collapseSpaces :: "string \<Rightarrow> string" where
  "collapseSpaces cleaned =
     (if contains cleaned ''  '' then collapseSpaces (replaceAll cleaned ''  '' '' '') else cleaned)"
  by pat_completeness auto
termination
  by (relation "measure length") (auto intro: replaceAll_length_less)

function collapseDashes :: "string \<Rightarrow> string" where
  "collapseDashes key =
     (if contains key ''--'' then collapseDashes (replaceAll key ''--'' ''-'') else key)"
  by pat_completeness auto
termination
  by (relation "measure length") (auto intro: replaceAll_length_less)

declare collapseSpaces.simps [simp del] collapseDashes.simps [simp del]

section \<open>Key deriver and placeholder normalizer\<close>

text \<open>
  The pattern \<^verbatim>\<open>%[sdvqxXo]\<close>: a percent sign followed by one verb rune. \<open>argSplit\<close>,
  \<open>argFindAll\<close> and \<open>argReplaceAll\<close> are \<^verbatim>\<open>Split(format, -1)\<close>,
  \<^verbatim>\<open>FindAllString(format, -1)\<close> and \<^verbatim>\<open>ReplaceAllStringFunc\<close> for this pattern:
  one scan from the left, every match two runes long, matches never overlapping. The
  callback of \<open>normalize\<close> increments a counter at every match; the counter is the first
  argument of \<open>argReplaceAll\<close>.
\<close>

definition isVerb :: "char \<Rightarrow> bool" where
  "isVerb r = (r \<in> set ''sdvqxXo'')"

fun argSplit :: "string \<Rightarrow> string list" where
  "argSplit (c # d # rest) =
     (if c = CHR ''%'' \<and> isVerb d then [] # argSplit rest
      else (case argSplit (d # rest) of p # ps \<Rightarrow> (c # p) # ps | [] \<Rightarrow> [[c]]))"
| "argSplit s = [s]"

fun argFindAll :: "string \<Rightarrow> string list" where
  "argFindAll (c # d # rest) =
     (if c = CHR ''%'' \<and> isVerb d then [c, d] # argFindAll rest else argFindAll (d # rest))"
| "argFindAll s = []"

definition placeholder :: "nat \<Rightarrow> string" where
  "placeholder i = ''{'' @ itoa (int i) @ ''}''"

fun argReplaceAll :: "nat \<Rightarrow> string \<Rightarrow> string" where
  "argReplaceAll counter (c # d # rest) =
     (if c = CHR ''%'' \<and> isVerb d then placeholder counter @ argReplaceAll (Suc counter) rest
      else c # argReplaceAll counter (d # rest))"
| "argReplaceAll counter s = s"

definition normalize :: "string \<Rightarrow> string \<times> string list" where
  "normalize format = (argReplaceAll 0 format, argFindAll format)"

text \<open>
  \<open>slugify\<close>. \<open>cleanPart\<close> is the cleaning of one part (lower case, every rune outside
  a-z and 0-9 turned into a space, \<^verbatim>\<open>TrimSpace\<close>, runs of spaces collapsed);
  \<open>slugParts\<close> is the loop over the parts, which appends the cleaned part when it is not
  empty and then the index \<open>i\<close> when \<open>i < len(matches)\<close>; \<open>slugify\<close> joins the pieces with
  dashes, collapses double dashes and trims dashes.
\<close>

definition cleanPart :: "string \<Rightarrow> string" where
  "cleanPart p =
     collapseSpaces (trimSpace
       (map (\<lambda>r. if isLowerAlnum r then r else CHR '' '') (map toLowerRune p)))"

fun slugParts :: "nat \<Rightarrow> nat \<Rightarrow> string list \<Rightarrow> string list" where
  "slugParts i n [] = []"
| "slugParts i n (p # parts) =
     (if p \<noteq> [] \<and> cleanPart p \<noteq> [] then [replaceAll (cleanPart p) '' '' ''-''] else []) @
     (if i < n then [itoa (int i)] else []) @
     slugParts (Suc i) n parts"

definition slugify :: "string \<Rightarrow> string" where
  "slugify format =
     trim (collapseDashes
       (join (slugParts 0 (length (argFindAll format)) (argSplit format)) ''-'')) ''-''"


section \<open>Plural rule selector\<close>

text \<open>
  \<open>determinePluralForm\<close> of the source: a \<open>switch\<close> on the locale, each case an
  \<open>if\<close>/\<open>else if\<close> chain on the count. The cases are kept in the source's order.
\<close>

definition determinePluralForm :: "string \<Rightarrow> int \<Rightarrow> string" where
  "determinePluralForm locale count =
     (if locale \<in> set [''en'', ''de'', ''it'', ''es'', ''pt''] then
        (if count = 0 then ''zero'' else if count = 1 then ''one'' else ''other'')
      else if locale = ''fr'' then
        (if count = 0 then ''zero'' else if count = 1 then ''one'' else ''other'')
      else if locale \<in> set [''ru'', ''uk'', ''be''] then
        (if count = 0 then ''zero'' else if count = 1 then ''one''
         else if count \<ge> 2 \<and> count \<le> 4 then ''few'' else ''many'')
      else if locale = ''pl'' then
        (if count = 0 then ''zero'' else if count = 1 then ''one''
         else if count \<ge> 2 \<and> count \<le> 4 then ''few'' else ''many'')
      else if locale = ''ar'' then
        (if count = 0 then ''zero'' else if count = 1 then ''one''
         else if count = 2 then ''two''
         else if count \<ge> 3 \<and> count \<le> 10 then ''few''
         else if count \<ge> 11 \<and> count \<le> 99 then ''many'' else ''other'')
      else
        (if count = 0 then ''zero'' else if count = 1 then ''one'' else ''other''))"

section \<open>Plural template extractor\<close>

text \<open>
  \<open>closeScan\<close> is the loop \<^verbatim>\<open>for i, r := range content\<close> of \<open>extractPluralForm\<close>:
  it returns the value of \<^verbatim>\<open>end\<close>, which stays 0 when the loop runs to the end of the
  content and is the position of the closing brace when \<^verbatim>\<open>braceCount\<close> reaches 0. The
  source then returns the empty string when \<^verbatim>\<open>end == 0\<close>.
\<close>

fun closeScan :: "int \<Rightarrow> nat \<Rightarrow> string \<Rightarrow> nat" where
  "closeScan braceCount i [] = 0"
| "closeScan braceCount i (r # rs) =
     (if r = CHR ''{'' then closeScan (braceCount + 1) (Suc i) rs
      else if r = CHR ''}'' then
        (if braceCount - 1 = 0 then i else closeScan (braceCount - 1) (Suc i) rs)
      else closeScan braceCount (Suc i) rs)"

definition extractPluralForm :: "string \<Rightarrow> string \<Rightarrow> int \<Rightarrow> string" where
  "extractPluralForm template form count =
     (let start = form @ '' {'' in
      case index template start of
        None \<Rightarrow> []
      | Some idx \<Rightarrow>
          (let content = drop (idx + length start) template;
               end = closeScan 1 0 content
           in if end = 0 then []
              else trimSpace (replaceAll (take end content) ''#'' (itoa count))))"

section \<open>Dictionaries and the registry\<close>

text \<open>
  An argument of \<open>T\<close> or \<open>F\<close> has Go type \<^verbatim>\<open>any\<close> and is only ever passed to
  \<^verbatim>\<open>fmt.Sprint\<close>; strings and integers are modelled.
\<close>

datatype arg = ArgString string | ArgInt int

fun sprint :: "arg \<Rightarrow> string" where
  "sprint (ArgString s) = s"
| "sprint (ArgInt i) = itoa i"

text \<open>
  The registry holds pointers to dictionaries (\<^verbatim>\<open>map[string]*Dictionary\<close>), and
  \<open>Dictionary.Get\<close> compares pointers (\<^verbatim>\<open>defaultDict != d\<close>), so a dictionary is
  an address into a heap. A missing map entry is the nil pointer, here \<open>None\<close>.
\<close>

type_synonym ptr = nat

record Dictionary =
  Lang :: string
  Translations :: "string \<rightharpoonup> string"

record registry =
  dictionaries :: "string \<rightharpoonup> ptr"
  currentLang :: string
  heap :: "ptr \<Rightarrow> Dictionary"

definition DefaultLanguage :: "registry \<Rightarrow> string" where
  "DefaultLanguage g = currentLang g"

definition GetDictionary :: "registry \<Rightarrow> string \<Rightarrow> ptr option" where
  "GetDictionary g lang = dictionaries g lang"

definition SetDefaultLanguage :: "registry \<Rightarrow> string \<Rightarrow> registry" where
  "SetDefaultLanguage g lang = g\<lparr>currentLang := lang\<rparr>"

definition Register :: "registry \<Rightarrow> ptr \<Rightarrow> registry" where
  "Register g dict = g\<lparr>dictionaries := (dictionaries g)(Lang (heap g dict) \<mapsto> dict)\<rparr>"

definition Add :: "registry \<Rightarrow> ptr \<Rightarrow> string \<Rightarrow> string \<Rightarrow> registry" where
  "Add g d key v =
     g\<lparr>heap := (heap g)(d := (heap g d)\<lparr>Translations := (Translations (heap g d))(key \<mapsto> v)\<rparr>)\<rparr>"

text \<open>
  \<open>Dictionary.Get\<close> calls itself on the default dictionary. The call is made only from a
  dictionary that is not the registered default one and goes to the registered default
  one, so it is at most one level deep.
\<close>

function Get :: "registry \<Rightarrow> ptr \<Rightarrow> string \<Rightarrow> string" where
  "Get g d key =
     (case Translations (heap g d) key of
        Some v \<Rightarrow> v
      | None \<Rightarrow>
          (if Lang (heap g d) \<noteq> DefaultLanguage g then
             (case GetDictionary g (DefaultLanguage g) of
                Some defaultDict \<Rightarrow> (if defaultDict \<noteq> d then Get g defaultDict key else key)
              | None \<Rightarrow> key)
           else key))"
  by pat_completeness auto
termination
  by (relation "measure (\<lambda>(g, d, key). if GetDictionary g (DefaultLanguage g) = Some d then 0 else 1)")
    auto

declare Get.simps [simp del]

section \<open>Translation functions\<close>

text \<open>
  The loop \<^verbatim>\<open>for i, arg := range args\<close> of \<open>T\<close> and \<open>F\<close>: one
  \<^verbatim>\<open>strings.ReplaceAll\<close> per index, each on the result of the one before.
\<close>

fun substArgs :: "nat \<Rightarrow> string \<Rightarrow> arg list \<Rightarrow> string" where
  "substArgs i template [] = template"
| "substArgs i template (a # args) =
     substArgs (Suc i) (replaceAll template (placeholder i) (sprint a)) args"

text \<open>
  \<open>T\<close>, \<open>F\<close>, \<open>S\<close> and \<open>P\<close> return a closure over the locale; here the registry and the
  locale are further arguments. The branches are those of the source: in \<open>T\<close>, \<open>F\<close> and
  \<open>P\<close> the default dictionary is consulted in the \<^verbatim>\<open>else if\<close> branch, that is when
  the locale has no dictionary; in \<open>S\<close> the two lookups follow each other.
\<close>

definition T :: "registry \<Rightarrow> string \<Rightarrow> arg list \<Rightarrow> string \<Rightarrow> string" where
  "T g key args locale =
     (let template =
            (case GetDictionary g locale of
               Some dict \<Rightarrow>
                 (let tr = Get g dict key in if tr \<noteq> [] \<and> tr \<noteq> key then tr else key)
             | None \<Rightarrow>
                 (case GetDictionary g (DefaultLanguage g) of
                    Some defaultDict \<Rightarrow>
                      (let tr = Get g defaultDict key
                       in if tr \<noteq> [] \<and> tr \<noteq> key then tr else key)
                  | None \<Rightarrow> key))
      in substArgs 0 template args)"


definition S :: "registry \<Rightarrow> string \<Rightarrow> string \<Rightarrow> string" where
  "S g text locale =
     (let key = slugify text;
          first = (case GetDictionary g locale of
                     Some dict \<Rightarrow> (let tr = Get g dict key in
                                    if tr \<noteq> [] \<and> tr \<noteq> key then Some tr else None)
                   | None \<Rightarrow> None)
      in case first of
           Some tr \<Rightarrow> tr
         | None \<Rightarrow>
             (case GetDictionary g (DefaultLanguage g) of
                Some defaultDict \<Rightarrow>
                  (let tr = Get g defaultDict key in if tr \<noteq> [] \<and> tr \<noteq> key then tr else text)
              | None \<Rightarrow> text))"

definition P :: "registry \<Rightarrow> string \<Rightarrow> int \<Rightarrow> string \<Rightarrow> string" where
  "P g key count locale =
     (let template =
            (case GetDictionary g locale of
               Some dict \<Rightarrow> Get g dict key
             | None \<Rightarrow>
                 (case GetDictionary g (DefaultLanguage g) of
                    Some defaultDict \<Rightarrow> Get g defaultDict key
                  | None \<Rightarrow> key));
          fallback = replaceAll template ''{count}'' (itoa count)
      in if contains template ''{count, plural'' then
           (let form = determinePluralForm locale count;
                result = extractPluralForm template form count
            in if result \<noteq> [] then result
               else if form \<noteq> ''other'' then
                 (let result = extractPluralForm template ''other'' count
                  in if result \<noteq> [] then result else fallback)
               else fallback)
         else fallback)"


section \<open>Notions of the specification\<close>

text \<open>The rule table as the specification words it, one rule per locale family.\<close>

definition default_rule :: "int \<Rightarrow> string" where
  "default_rule c = (if c = 0 then ''zero'' else if c = 1 then ''one'' else ''other'')"

definition slavic_rule :: "int \<Rightarrow> string" where
  "slavic_rule c =
     (if c = 0 then ''zero'' else if c = 1 then ''one''
      else if c \<in> {2..4} then ''few'' else ''many'')"

definition arabic_rule :: "int \<Rightarrow> string" where
  "arabic_rule c =
     (if c = 0 then ''zero'' else if c = 1 then ''one'' else if c = 2 then ''two''
      else if c \<in> {3..10} then ''few'' else if c \<in> {11..99} then ''many'' else ''other'')"

definition slavic_locales :: "string list" where
  "slavic_locales = [''ru'', ''uk'', ''be'', ''pl'']"

definition default_locales :: "string list" where
  "default_locales = [''en'', ''de'', ''it'', ''es'', ''pt'', ''fr'']"

definition known_locales :: "string list" where
  "known_locales = default_locales @ slavic_locales @ [''ar'']"

definition plural_categories :: "string list" where
  "plural_categories = [''zero'', ''one'', ''two'', ''few'', ''many'', ''other'']"

text \<open>
  Occurrences of a pattern in a string, and the first one. \<open>bal\<close> is the number of
  opening braces minus the number of closing braces of a string: the nesting depth that a
  scan has reached after reading it, relative to where it started. A string \<open>staysOpen\<close>
  when no prefix of it closes more braces than it opens: a scan that starts inside a brace
  does not leave that brace while reading it.
\<close>

definition occursAt :: "string \<Rightarrow> string \<Rightarrow> nat \<Rightarrow> bool" where
  "occursAt s p i = (i \<le> length s \<and> prefix p (drop i s))"

definition firstOccurrence :: "string \<Rightarrow> string \<Rightarrow> nat \<Rightarrow> bool" where
  "firstOccurrence s p i = (occursAt s p i \<and> (\<forall>j<i. \<not> occursAt s p j))"

definition bal :: "string \<Rightarrow> int" where
  "bal p = int (count_list p (CHR ''{'')) - int (count_list p (CHR ''}''))"

definition staysOpen :: "string \<Rightarrow> bool" where
  "staysOpen s = (\<forall>p. prefix p s \<longrightarrow> 0 \<le> bal p)"

text \<open>
  \<open>Register\<close> is the only writer of the registry map and stores a dictionary under its
  own \<open>Lang\<close>: in a well-formed registry every entry is filed under the language of its
  dictionary. \<open>translation\<close> is the entry of a key in the dictionary of a language, when
  both exist.
\<close>

definition wf_registry :: "registry \<Rightarrow> bool" where
  "wf_registry g = (\<forall>l d. dictionaries g l = Some d \<longrightarrow> Lang (heap g d) = l)"

definition translation :: "registry \<Rightarrow> string \<Rightarrow> string \<Rightarrow> string option" where
  "translation g l key =
     (case dictionaries g l of None \<Rightarrow> None | Some d \<Rightarrow> Translations (heap g d) key)"

text \<open>
  The lookup and the policy of \<open>P\<close> in the words of the specification: the template is
  the entry of the locale's dictionary, else that of the default dictionary, else the key;
  with the plural marker the category selected for the locale is extracted, then
  \<open>other\<close>, and the last resort is the template with \<open>{count}\<close> replaced.
\<close>

definition rawTemplate_spec :: "registry \<Rightarrow> string \<Rightarrow> string \<Rightarrow> string" where
  "rawTemplate_spec g locale key =
     (case translation g locale key of
        Some v \<Rightarrow> v
      | None \<Rightarrow> (case translation g (currentLang g) key of Some v \<Rightarrow> v | None \<Rightarrow> key))"

definition P_spec :: "registry \<Rightarrow> string \<Rightarrow> int \<Rightarrow> string \<Rightarrow> string" where
  "P_spec g key count locale =
     (let template = rawTemplate_spec g locale key;
          substituted = replaceAll template ''{count}'' (itoa count)
      in if contains template ''{count, plural'' then
           (let selected = extractPluralForm template (determinePluralForm locale count) count
            in if selected \<noteq> [] then selected
               else (let other = extractPluralForm template ''other'' count
                     in if other \<noteq> [] then other else substituted))
         else substituted)"

definition noEntry :: "registry \<Rightarrow> string \<Rightarrow> bool" where
  "noEntry g key = (\<forall>l. translation g l key = None)"

text \<open>
  A looked-up value that \<open>T\<close>, \<open>F\<close> and \<open>S\<close> accept: not empty and not the key itself.
\<close>

definition usable :: "string \<Rightarrow> string option \<Rightarrow> string option" where
  "usable key v = (case v of Some tr \<Rightarrow> if tr \<noteq> [] \<and> tr \<noteq> key then Some tr else None | None \<Rightarrow> None)"

text \<open>A registry with an English (default) and a French dictionary, for the examples.\<close>

definition enDict :: Dictionary where
  "enDict =
     \<lparr>Lang = ''en'',
      Translations =
        [''goodbye'' \<mapsto> ''Goodbye'',
         ''dashboard'' \<mapsto> ''Dashboard'',
         ''greet'' \<mapsto> ''Hello {0}, meet {1}'',
         ''advanced-count'' \<mapsto> ''{count, plural, zero {no items} one {# item} other {# items}}'']\<rparr>"

definition frDict :: Dictionary where
  "frDict =
     \<lparr>Lang = ''fr'',
      Translations =
        [''goodbye'' \<mapsto> ''goodbye'', ''dashboard'' \<mapsto> ''Tableau de bord'', ''draft'' \<mapsto> []]\<rparr>"

definition exampleRegistry :: registry where
  "exampleRegistry =
     \<lparr>dictionaries = [''en'' \<mapsto> 0, ''fr'' \<mapsto> 1], currentLang = ''en'',
      heap = (\<lambda>_. enDict)(1 := frDict)\<rparr>"

text \<open>
  The shape of a key: runes a-z, 0-9 and the dash, no two dashes in a row, no dash at
  either end. \<open>trimBoth\<close> is the common form of \<open>trimSpace\<close> and \<open>trim\<close>.
\<close>

definition keyChar :: "char \<Rightarrow> bool" where
  "keyChar c = (isLowerAlnum c \<or> c = CHR ''-'')"

definition isKey :: "string \<Rightarrow> bool" where
  "isKey k = ((\<forall>c \<in> set k. keyChar c) \<and> \<not> contains k ''--'' \<and>
     (k \<noteq> [] \<longrightarrow> hd k \<noteq> CHR ''-'' \<and> last k \<noteq> CHR ''-''))"

definition trimBoth :: "(char \<Rightarrow> bool) \<Rightarrow> string \<Rightarrow> string" where
  "trimBoth Q s = rev (dropWhile Q (rev (dropWhile Q s)))"






text \<open>
  The digit tokens of a key: the key is split at its dashes and the pieces made of decimal
  digits only are kept, in order. \<open>indexNumerals n\<close> is the list of the numerals
  \<open>0\<close> to \<open>n - 1\<close>. A text is \<open>literalDigitFree\<close> when none of its literal segments
  (the stretches between format tokens) gives, slugified on its own, a key with a digit
  token; a text without any decimal digit is an instance.
\<close>

fun splitOn :: "char \<Rightarrow> string \<Rightarrow> string list" where
  "splitOn sep [] = [[]]"
| "splitOn sep (c # cs) =
     (if c = sep then [] # splitOn sep cs
      else (case splitOn sep cs of p # ps \<Rightarrow> (c # p) # ps | [] \<Rightarrow> [[c]]))"

definition isNumeral :: "string \<Rightarrow> bool" where
  "isNumeral tok = (tok \<noteq> [] \<and> list_all isDigit tok)"

definition digitTokens :: "string \<Rightarrow> string list" where
  "digitTokens key = filter isNumeral (splitOn (CHR ''-'') key)"

definition hasDigit :: "string \<Rightarrow> bool" where
  "hasDigit s = list_ex isDigit s"

definition indexNumerals :: "nat \<Rightarrow> string list" where
  "indexNumerals n = map (\<lambda>i. itoa (int i)) [0..<n]"

definition literalDigitFree :: "string \<Rightarrow> bool" where
  "literalDigitFree t = list_all (\<lambda>p. digitTokens (slugify p) = []) (argSplit t)"

section \<open>Facts about the string functions\<close>

lemma bal_Nil [simp]: "bal [] = 0"
  by (simp add: bal_def)

lemma bal_Cons:
  "bal (r # rs) = (if r = CHR ''{'' then 1 else if r = CHR ''}'' then - 1 else 0) + bal rs"
  by (simp add: bal_def)

lemma index_None_iff: "index s p = None \<longleftrightarrow> (\<forall>i. \<not> occursAt s p i)"
proof (induction s)
  case Nil
  show ?case by (auto simp: occursAt_def)
next
  case (Cons c cs)
  have "(\<forall>i. \<not> occursAt (c # cs) p i) \<longleftrightarrow> \<not> prefix p (c # cs) \<and> (\<forall>i. \<not> occursAt cs p i)"
  proof -
    have "occursAt (c # cs) p i \<longleftrightarrow> (i = 0 \<and> prefix p (c # cs)) \<or> (\<exists>j. i = Suc j \<and> occursAt cs p j)" for i
      by (cases i) (auto simp: occursAt_def)
    then show ?thesis by auto
  qed
  with Cons show ?case by auto
qed

lemma index_Some_iff: "index s p = Some i \<longleftrightarrow> firstOccurrence s p i"
proof (induction s arbitrary: i)
  case Nil
  show ?case by (auto simp: firstOccurrence_def occursAt_def)
next
  case (Cons c cs)
  have occ: "occursAt (c # cs) p k \<longleftrightarrow> (k = 0 \<and> prefix p (c # cs)) \<or> (\<exists>j. k = Suc j \<and> occursAt cs p j)" for k
    by (cases k) (auto simp: occursAt_def)
  show ?case
  proof (cases "prefix p (c # cs)")
    case True
    then show ?thesis by (auto simp: firstOccurrence_def occ)
  next
    case False
    show ?thesis
    proof (cases i)
      case 0
      with False show ?thesis by (auto simp: firstOccurrence_def occ)
    next
      case (Suc j)
      have "firstOccurrence (c # cs) p (Suc j) \<longleftrightarrow> firstOccurrence cs p j"
        using False unfolding firstOccurrence_def occ
        by (auto simp: less_Suc_eq_0_disj)
      with Cons [of j] False Suc show ?thesis by auto
    qed
  qed
qed

lemma closeScan_none:
  "(\<forall>p. prefix p rs \<longrightarrow> 1 \<le> bc + bal p) \<Longrightarrow> closeScan bc i rs = 0"
proof (induction rs arbitrary: bc i)
  case Nil
  show ?case by simp
next
  case (Cons r rs)
  have step: "1 \<le> bc + bal (r # q)" if "prefix q rs" for q
    using Cons.prems that by simp
  have one: "1 \<le> bc + bal [r]" using step [of "[]"] by simp
  show ?case
  proof (cases "r = CHR ''{''")
    case True
    have "\<forall>p. prefix p rs \<longrightarrow> 1 \<le> (bc + 1) + bal p"
      using step True by (auto simp: bal_Cons)
    from Cons.IH [OF this] True show ?thesis by simp
  next
    case False
    show ?thesis
    proof (cases "r = CHR ''}''")
      case True
      have "\<forall>p. prefix p rs \<longrightarrow> 1 \<le> (bc - 1) + bal p"
        using step True by (auto simp: bal_Cons)
      from Cons.IH [OF this] True one show ?thesis by (simp add: bal_Cons)
    next
      case F2: False
      have "\<forall>p. prefix p rs \<longrightarrow> 1 \<le> bc + bal p"
        using step False F2 by (auto simp: bal_Cons)
      from Cons.IH [OF this] False F2 show ?thesis by simp
    qed
  qed
qed

lemma closeScan_found:
  "(\<forall>p. prefix p sub \<longrightarrow> 1 \<le> bc + bal p) \<Longrightarrow> bc + bal sub = 1 \<Longrightarrow>
   closeScan bc i (sub @ CHR ''}'' # rest) = i + length sub"
proof (induction sub arbitrary: bc i)
  case Nil
  then show ?case by simp
next
  case (Cons r rs)
  have step: "1 \<le> bc + bal (r # q)" if "prefix q rs" for q
    using Cons.prems(1) that by simp
  have one: "1 \<le> bc + bal [r]" using step [of "[]"] by simp
  show ?case
  proof (cases "r = CHR ''{''")
    case True
    have "\<forall>p. prefix p rs \<longrightarrow> 1 \<le> (bc + 1) + bal p"
      using step True by (auto simp: bal_Cons)
    from Cons.IH [OF this] Cons.prems(2) True show ?thesis by (simp add: bal_Cons)
  next
    case False
    show ?thesis
    proof (cases "r = CHR ''}''")
      case True
      have "\<forall>p. prefix p rs \<longrightarrow> 1 \<le> (bc - 1) + bal p"
        using step True by (auto simp: bal_Cons)
      from Cons.IH [OF this] Cons.prems(2) True one show ?thesis by (simp add: bal_Cons)
    next
      case F2: False
      have "\<forall>p. prefix p rs \<longrightarrow> 1 \<le> bc + bal p"
        using step False F2 by (auto simp: bal_Cons)
      from Cons.IH [OF this] Cons.prems(2) False F2 show ?thesis by (simp add: bal_Cons)
    qed
  qed
qed

lemma trimSpace_Nil [simp]: "trimSpace [] = []"
  by (simp add: trimSpace_def)

lemma replaceAll_Nil [simp]: "old \<noteq> [] \<Longrightarrow> replaceAll [] old new = []"
  by (cases old) auto

lemma all_prefixes_iff: "(\<forall>p. prefix p xs \<longrightarrow> Q p) \<longleftrightarrow> (\<forall>p \<in> set (prefixes xs). Q p)"
  by (auto simp: in_set_prefixes)

section \<open>Facts about the key deriver\<close>

lemma lowerAlnum_facts:
  assumes "isLowerAlnum c"
  shows "\<not> isUpper c" "\<not> isSpace c" "c \<noteq> CHR ''-''" "c \<noteq> CHR '' ''" "c \<noteq> CHR ''%''"
    "c \<noteq> CHR ''{''" "c \<noteq> CHR ''}''"
  using assms
  by (auto simp: isLowerAlnum_def isUpper_def isSpace_def less_eq_char_def Let_def)

lemma digit_lowerAlnum: "isDigit c \<Longrightarrow> isLowerAlnum c"
  by (simp add: isDigit_def isLowerAlnum_def)

lemma toLower_keyChar: "keyChar c \<Longrightarrow> toLowerRune c = c"
proof -
  assume "keyChar c"
  then have "\<not> isUpper c"
    by (auto simp: keyChar_def lowerAlnum_facts) (simp add: isUpper_def)
  then show ?thesis by (simp add: toLowerRune_def)
qed

lemma contains_sublist: "contains s p \<longleftrightarrow> sublist p s"
proof (induction s)
  case Nil
  show ?case by (auto simp: contains_def)
next
  case (Cons c cs)
  then show ?case by (auto simp: contains_def sublist_Cons_right)
qed

lemma set_replaceAll: "set (replaceAll s old new) \<subseteq> set s \<union> set new"
proof (induction s old new rule: replaceAll.induct)
  case (3 c cs x xs new)
  show ?case
  proof (cases "prefix (x # xs) (c # cs)")
    case True
    with "3.IH"(1) have "set (replaceAll (drop (length xs) cs) (x # xs) new)
        \<subseteq> set (drop (length xs) cs) \<union> set new" by simp
    moreover have "set (drop (length xs) cs) \<subseteq> set cs" by (rule set_drop_subset)
    ultimately show ?thesis using True by auto
  next
    case False
    with "3.IH"(2) show ?thesis by auto
  qed
qed auto

lemma replaceAll_char:
  "replaceAll s [a] [b] = map (\<lambda>c. if c = a then b else c) s"
  by (induction s) auto

lemma replaceAll_absent: "old \<noteq> [] \<Longrightarrow> \<not> contains s old \<Longrightarrow> replaceAll s old new = s"
proof (induction s old new rule: replaceAll.induct)
  case (3 c cs x xs new)
  then show ?case by (auto simp: contains_def)
qed auto

lemma collapseDashes_fix: "\<not> contains k ''--'' \<Longrightarrow> collapseDashes k = k"
  by (simp add: collapseDashes.simps)

lemma collapseSpaces_fix: "\<not> contains k ''  '' \<Longrightarrow> collapseSpaces k = k"
  by (simp add: collapseSpaces.simps)

lemma collapseDashes_none: "\<not> contains (collapseDashes k) ''--''"
  by (induction k rule: collapseDashes.induct) (simp add: collapseDashes.simps)

lemma collapseSpaces_none: "\<not> contains (collapseSpaces k) ''  ''"
  by (induction k rule: collapseSpaces.induct) (simp add: collapseSpaces.simps)

lemma set_collapseDashes: "set (collapseDashes k) \<subseteq> set k \<union> {CHR ''-''}"
proof (induction k rule: collapseDashes.induct)
  case (1 key)
  show ?case
  proof (cases "contains key ''--''")
    case True
    have "set (replaceAll key ''--'' ''-'') \<subseteq> set key \<union> {CHR ''-''}"
      using set_replaceAll [of key "''--''" "''-''"] by simp
    with "1.IH" [OF True] True show ?thesis by (subst collapseDashes.simps) auto
  next
    case False
    then show ?thesis by (subst collapseDashes.simps) auto
  qed
qed

lemma set_collapseSpaces: "set (collapseSpaces k) \<subseteq> set k \<union> {CHR '' ''}"
proof (induction k rule: collapseSpaces.induct)
  case (1 key)
  show ?case
  proof (cases "contains key ''  ''")
    case True
    have "set (replaceAll key ''  '' '' '') \<subseteq> set key \<union> {CHR '' ''}"
      using set_replaceAll [of key "''  ''" "'' ''"] by simp
    with "1.IH" [OF True] True show ?thesis by (subst collapseSpaces.simps) auto
  next
    case False
    then show ?thesis by (subst collapseSpaces.simps) auto
  qed
qed

lemma trimSpace_trimBoth: "trimSpace s = trimBoth isSpace s"
  by (simp add: trimSpace_def trimBoth_def)

lemma trim_trimBoth: "trim s cutset = trimBoth (\<lambda>c. c \<in> set cutset) s"
  by (simp add: trim_def trimBoth_def)

lemma trimBoth_sublist: "sublist (trimBoth Q s) s"
proof -
  have "dropWhile Q s = trimBoth Q s @ rev (takeWhile Q (rev (dropWhile Q s)))"
    unfolding trimBoth_def by (metis rev_append rev_rev_ident takeWhile_dropWhile_id)
  then have "prefix (trimBoth Q s) (dropWhile Q s)" by (metis prefixI)
  moreover have "suffix (dropWhile Q s) s" by (rule suffix_dropWhile)
  ultimately show ?thesis by (meson prefix_imp_sublist suffix_imp_sublist sublist_order.order_trans)
qed

lemma trimBoth_ends:
  assumes "trimBoth Q s \<noteq> []"
  shows "\<not> Q (hd (trimBoth Q s))" "\<not> Q (last (trimBoth Q s))"
proof -
  let ?ys = "dropWhile Q s"
  have ys: "?ys \<noteq> []"
  proof
    assume "?ys = []"
    then have "trimBoth Q s = []"
      unfolding trimBoth_def by (metis dropWhile.simps(1) rev.simps(1))
    with assms show False by simp
  qed
  have pre: "?ys = trimBoth Q s @ rev (takeWhile Q (rev ?ys))"
    unfolding trimBoth_def by (metis rev_append rev_rev_ident takeWhile_dropWhile_id)
  have "hd (trimBoth Q s) = hd ?ys" using assms pre by (metis hd_append2)
  moreover have "\<not> Q (hd ?ys)" using ys by (rule hd_dropWhile)
  ultimately show "\<not> Q (hd (trimBoth Q s))" by simp
  have ne: "dropWhile Q (rev ?ys) \<noteq> []" using assms by (simp add: trimBoth_def)
  have "last (trimBoth Q s) = hd (dropWhile Q (rev ?ys))"
    unfolding trimBoth_def using ne by (simp add: last_rev)
  moreover have "\<not> Q (hd (dropWhile Q (rev ?ys)))" using ne by (rule hd_dropWhile)
  ultimately show "\<not> Q (last (trimBoth Q s))" by simp
qed

lemma dropWhile_keep: "xs \<noteq> [] \<Longrightarrow> \<not> Q (hd xs) \<Longrightarrow> dropWhile Q xs = xs"
  by (cases xs) auto

lemma trimBoth_fix:
  assumes "s = [] \<or> (\<not> Q (hd s) \<and> \<not> Q (last s))"
  shows "trimBoth Q s = s"
proof (cases s)
  case Nil
  then show ?thesis by (simp add: trimBoth_def)
next
  case (Cons a as)
  with assms have h: "\<not> Q a" and l: "\<not> Q (last s)" by auto
  from h Cons have "dropWhile Q s = s" by simp
  moreover have "dropWhile Q (rev s) = rev s"
  proof -
    have "rev s \<noteq> []" "hd (rev s) = last s" using Cons by (simp_all add: hd_rev)
    with l show ?thesis by (intro dropWhile_keep) simp_all
  qed
  ultimately show ?thesis by (simp add: trimBoth_def)
qed

lemma digitChar_digit: "d < 10 \<Longrightarrow> isDigit (digitChar d)"
proof -
  assume "d < 10"
  then have "d \<in> {0, 1, 2, 3, 4, 5, 6, 7, 8, 9}" by auto
  then show ?thesis
    by (auto simp: digitChar_def isDigit_def less_eq_char_def)
qed

lemma natDigits_digits: "\<forall>c \<in> set (natDigits n). isDigit c"
proof (induction n rule: natDigits.induct)
  case (1 n)
  show ?case
  proof (cases "n < 10")
    case True
    then show ?thesis by (subst natDigits.simps) (simp add: digitChar_digit)
  next
    case False
    with "1.IH" show ?thesis by (subst natDigits.simps) (auto simp: digitChar_digit)
  qed
qed

lemma natDigits_nonempty: "natDigits n \<noteq> []"
  by (subst natDigits.simps) simp

lemma itoa_nat: "itoa (int i) = natDigits i"
  by (simp add: itoa_def)

lemma set_join: "set (join xs sep) \<subseteq> (\<Union>x \<in> set xs. set x) \<union> set sep"
  by (induction xs sep rule: join.induct) auto

lemma cleanPart_chars: "c \<in> set (cleanPart p) \<Longrightarrow> isLowerAlnum c \<or> c = CHR '' ''"
proof -
  assume c: "c \<in> set (cleanPart p)"
  let ?m = "map (\<lambda>r. if isLowerAlnum r then r else CHR '' '') (map toLowerRune p)"
  have "set (trimSpace ?m) \<subseteq> set ?m"
    unfolding trimSpace_trimBoth by (rule set_mono_sublist) (rule trimBoth_sublist)
  moreover have "set (cleanPart p) \<subseteq> set (trimSpace ?m) \<union> {CHR '' ''}"
    unfolding cleanPart_def by (rule set_collapseSpaces)
  ultimately have "c \<in> set ?m \<or> c = CHR '' ''" using c by auto
  then show ?thesis by auto
qed

lemma slugParts_chars: "x \<in> set (slugParts i n parts) \<Longrightarrow> c \<in> set x \<Longrightarrow> keyChar c"
proof (induction parts arbitrary: i)
  case Nil
  then show ?case by simp
next
  case (Cons p parts)
  from Cons.prems(1) consider
    (a) "x = replaceAll (cleanPart p) '' '' ''-''" | (b) "x = itoa (int i)"
    | (c) "x \<in> set (slugParts (Suc i) n parts)"
    by (auto split: if_splits)
  then show ?case
  proof cases
    case a
    with Cons.prems(2) show ?thesis
      by (auto simp: replaceAll_char keyChar_def dest: cleanPart_chars split: if_splits)
  next
    case b
    with Cons.prems(2) show ?thesis
      using natDigits_digits [of i] by (auto simp: itoa_nat keyChar_def digit_lowerAlnum)
  next
    case c
    with Cons show ?thesis by blast
  qed
qed

lemma slugify_isKey: "isKey (slugify t)"
proof -
  let ?j = "join (slugParts 0 (length (argFindAll t)) (argSplit t)) ''-''"
  let ?c = "collapseDashes ?j"
  have sub: "sublist (slugify t) ?c"
    unfolding slugify_def trim_trimBoth by (rule trimBoth_sublist)
  have "\<forall>c \<in> set ?j. keyChar c"
  proof
    fix c assume "c \<in> set ?j"
    then have "(\<exists>x \<in> set (slugParts 0 (length (argFindAll t)) (argSplit t)). c \<in> set x)
        \<or> c = CHR ''-''"
      using set_join [of "slugParts 0 (length (argFindAll t)) (argSplit t)" "''-''"] by auto
    then show "keyChar c"
    proof
      assume "\<exists>x \<in> set (slugParts 0 (length (argFindAll t)) (argSplit t)). c \<in> set x"
      then show ?thesis using slugParts_chars by blast
    next
      assume "c = CHR ''-''"
      then show ?thesis by (simp add: keyChar_def)
    qed
  qed
  then have "\<forall>c \<in> set ?c. keyChar c"
    using set_collapseDashes [of ?j] by (auto simp: keyChar_def)
  then have chars: "\<forall>c \<in> set (slugify t). keyChar c"
    using set_mono_sublist [OF sub] by auto
  have nodd: "\<not> contains (slugify t) ''--''"
    using collapseDashes_none [of ?j] sub
    unfolding contains_sublist by (meson sublist_order.order_trans)
  have ends: "slugify t \<noteq> [] \<longrightarrow> hd (slugify t) \<noteq> CHR ''-'' \<and> last (slugify t) \<noteq> CHR ''-''"
    using trimBoth_ends [of "\<lambda>c. c \<in> set ''-''" ?c]
    unfolding slugify_def trim_trimBoth by auto
  show ?thesis unfolding isKey_def using chars nodd ends by blast
qed

lemma no_verbs:
  "CHR ''%'' \<notin> set s \<Longrightarrow> argFindAll s = [] \<and> argSplit s = [s]"
  by (induction s rule: argSplit.induct) auto

lemma map_no_double:
  assumes "\<not> contains k [a, a]" and "\<forall>c \<in> set k. f c = b \<longrightarrow> c = a"
  shows "\<not> contains (map f k) [b, b]"
proof
  assume "contains (map f k) [b, b]"
  then obtain ps ss where "map f k = ps @ [b, b] @ ss"
    unfolding contains_sublist sublist_def by blast
  then obtain ps' m' ss' where k: "k = ps' @ m' @ ss'" and m: "map f m' = [b, b]"
    by (metis map_eq_append_conv)
  from m obtain x y where xy: "m' = [x, y]" "f x = b" "f y = b" by auto
  with k assms(2) have "x = a" "y = a" by auto
  with k xy have "sublist [a, a] k" unfolding sublist_def by blast
  with assms(1) show False by (simp add: contains_sublist)
qed

lemma slugify_key:
  assumes "isKey k"
  shows "slugify k = k"
proof (cases "k = []")
  case True
  have "collapseDashes [] = []" by (rule collapseDashes_fix) (simp add: contains_def)
  with True show ?thesis by (simp add: slugify_def trim_def)
next
  case False
  from assms have chars: "\<forall>c \<in> set k. keyChar c" and nodd: "\<not> contains k ''--''"
    and ends: "hd k \<noteq> CHR ''-''" "last k \<noteq> CHR ''-''"
    using False by (auto simp: isKey_def)
  have "CHR ''%'' \<notin> set k" using chars by (auto simp: keyChar_def dest: lowerAlnum_facts)
  then have verbs: "argFindAll k = []" "argSplit k = [k]" using no_verbs by auto
  let ?sp = "\<lambda>c. if c = CHR ''-'' then CHR '' '' else c"
  let ?k' = "map ?sp k"
  have low: "map toLowerRune k = k" using chars by (simp add: map_idI toLower_keyChar)
  have m: "map (\<lambda>r. if isLowerAlnum r then r else CHR '' '') k = ?k'"
    using chars by (auto simp: keyChar_def dest: lowerAlnum_facts)
  have k'ne: "?k' \<noteq> []" using False by simp
  have nosp: "\<forall>c \<in> set k. c \<noteq> CHR '' ''"
    using chars by (auto simp: keyChar_def dest: lowerAlnum_facts)
  have hd_sp: "\<not> isSpace (hd ?k')"
  proof -
    have "hd k \<in> set k" using False by simp
    then have "isLowerAlnum (hd k)" using chars ends by (auto simp: keyChar_def)
    then show ?thesis using False ends by (simp add: hd_map lowerAlnum_facts)
  qed
  have last_sp: "\<not> isSpace (last ?k')"
  proof -
    have "last k \<in> set k" using False by simp
    then have "isLowerAlnum (last k)" using chars ends by (auto simp: keyChar_def)
    then show ?thesis using False ends by (simp add: last_map lowerAlnum_facts)
  qed
  have t: "trimSpace ?k' = ?k'"
    unfolding trimSpace_trimBoth using hd_sp last_sp by (intro trimBoth_fix) simp
  have "\<not> contains ?k' [CHR '' '', CHR '' '']"
    using nodd nosp by (intro map_no_double [where a = "CHR ''-''"]) auto
  then have c: "collapseSpaces ?k' = ?k'" by (intro collapseSpaces_fix) simp
  have cp: "cleanPart k = ?k'" by (simp add: cleanPart_def low m t c)
  have undo: "replaceAll ?k' '' '' ''-'' = k"
    using nosp by (simp add: replaceAll_char map_idI)
  have parts: "slugParts 0 0 [k] = [k]" using False k'ne by (simp add: cp undo)
  have tr: "trim k ''-'' = k"
    unfolding trim_trimBoth using ends by (intro trimBoth_fix) simp
  have "slugify k = trim (collapseDashes (join (slugParts 0 0 [k]) ''-'')) ''-''"
    by (simp add: slugify_def verbs del: slugParts.simps)
  also have "\<dots> = trim (collapseDashes k) ''-''"
    by (simp only: parts join.simps)
  finally show ?thesis by (simp add: collapseDashes_fix [OF nodd] tr)
qed

section \<open>Facts about the registry\<close>

lemma Get_registered:
  assumes "wf_registry g" "dictionaries g locale = Some d"
  shows "Get g d key = rawTemplate_spec g locale key"
proof -
  have L: "Lang (heap g d) = locale" using assms by (auto simp: wf_registry_def)
  show ?thesis
  proof (cases "Translations (heap g d) key")
    case (Some v)
    then show ?thesis using assms(2)
      by (simp add: Get.simps rawTemplate_spec_def translation_def)
  next
    case None
    show ?thesis
    proof (cases "locale = currentLang g")
      case True
      then show ?thesis using None assms(2) L
        by (simp add: Get.simps rawTemplate_spec_def translation_def DefaultLanguage_def)
    next
      case False
      show ?thesis
      proof (cases "dictionaries g (currentLang g)")
        case N2: None
        then show ?thesis using None assms(2) L False
          by (simp add: Get.simps [of g d] rawTemplate_spec_def translation_def DefaultLanguage_def
              GetDictionary_def)
      next
        case (Some dd)
        then have Ldd: "Lang (heap g dd) = currentLang g" using assms(1) by (auto simp: wf_registry_def)
        with L False have ne: "dd \<noteq> d" by auto
        have "Get g dd key = (case Translations (heap g dd) key of Some v \<Rightarrow> v | None \<Rightarrow> key)"
          using Ldd by (simp add: Get.simps [of g dd] DefaultLanguage_def split: option.splits)
        then show ?thesis using None assms(2) L False Some ne
          by (simp add: Get.simps [of g d] rawTemplate_spec_def translation_def DefaultLanguage_def
              GetDictionary_def)
      qed
    qed
  qed
qed


lemma P_lookup:
  assumes "wf_registry g"
  shows "(case GetDictionary g locale of
            Some dict \<Rightarrow> Get g dict key
          | None \<Rightarrow> (case GetDictionary g (DefaultLanguage g) of
                       Some defaultDict \<Rightarrow> Get g defaultDict key
                     | None \<Rightarrow> key)) = rawTemplate_spec g locale key"
proof (cases "dictionaries g locale")
  case (Some d)
  then show ?thesis using Get_registered [OF assms Some] by (simp add: GetDictionary_def)
next
  case None
  show ?thesis
  proof (cases "dictionaries g (currentLang g)")
    case N2: None
    with None show ?thesis
      by (simp add: GetDictionary_def DefaultLanguage_def rawTemplate_spec_def translation_def)
  next
    case (Some dd)
    have "Get g dd key = rawTemplate_spec g (currentLang g) key"
      using Get_registered [OF assms Some] .
    also have "\<dots> = rawTemplate_spec g locale key"
      using None by (simp add: rawTemplate_spec_def translation_def split: option.splits)
    finally show ?thesis using None Some by (simp add: GetDictionary_def DefaultLanguage_def)
  qed
qed

lemma Get_present: "Translations (heap g d) key = Some v \<Longrightarrow> Get g d key = v"
  by (simp add: Get.simps)

lemma Get_default:
  assumes "dictionaries g (currentLang g) = Some dd"
  shows "Get g dd key = (case translation g (currentLang g) key of Some v \<Rightarrow> v | None \<Rightarrow> key)"
  using assms
  by (simp add: Get.simps [of g dd] translation_def DefaultLanguage_def GetDictionary_def
      split: option.splits)

lemma Get_missing:
  assumes "Translations (heap g d) key = None"
  shows "Get g d key = key \<or>
    Get g d key = (case translation g (currentLang g) key of Some v \<Rightarrow> v | None \<Rightarrow> key)"
proof (cases "dictionaries g (currentLang g)")
  case None
  with assms show ?thesis
    by (simp add: Get.simps [of g d] DefaultLanguage_def GetDictionary_def)
next
  case (Some dd)
  show ?thesis
  proof (cases "Lang (heap g d) \<noteq> currentLang g \<and> dd \<noteq> d")
    case True
    then have "Get g d key = Get g dd key" using assms Some
      by (simp add: Get.simps [of g d] DefaultLanguage_def GetDictionary_def)
    then show ?thesis using Get_default [OF Some] by simp
  next
    case False
    then have "Get g d key = key" using assms Some
      by (auto simp: Get.simps [of g d] DefaultLanguage_def GetDictionary_def)
    then show ?thesis by simp
  qed
qed

lemma S_cases_general:
  "S g text locale =
    (case usable (slugify text) (translation g locale (slugify text)) of
       Some tr \<Rightarrow> tr
     | None \<Rightarrow> (case usable (slugify text) (translation g (currentLang g) (slugify text)) of
                  Some tr \<Rightarrow> tr
                | None \<Rightarrow> text))"
proof -
  let ?k = "slugify text"
  let ?r = "case translation g (currentLang g) ?k of Some v \<Rightarrow> v | None \<Rightarrow> ?k"
  let ?second = "case usable ?k (translation g (currentLang g) ?k) of Some tr \<Rightarrow> tr | None \<Rightarrow> text"
  have second: "(case GetDictionary g (DefaultLanguage g) of
        Some defaultDict \<Rightarrow>
          (if Get g defaultDict ?k \<noteq> [] \<and> Get g defaultDict ?k \<noteq> ?k
           then Get g defaultDict ?k else text)
      | None \<Rightarrow> text) = ?second"
    by (auto simp: GetDictionary_def DefaultLanguage_def Get_default usable_def translation_def
        Let_def split: option.splits)
  have r_usable: "?r \<noteq> [] \<and> ?r \<noteq> ?k \<Longrightarrow> ?second = ?r"
    by (auto simp: usable_def split: option.splits)
  show ?thesis
  proof (cases "dictionaries g locale")
    case None
    then show ?thesis
      unfolding S_def Let_def unfolding second
      by (simp add: GetDictionary_def translation_def usable_def)
  next
    case (Some d)
    show ?thesis
    proof (cases "Translations (heap g d) ?k")
      case (Some v)
      then have "Get g d ?k = v" by (rule Get_present)
      with Some \<open>dictionaries g locale = Some d\<close> show ?thesis
        unfolding S_def Let_def unfolding second
        by (simp add: GetDictionary_def translation_def usable_def)
    next
      case None
      then have tr: "translation g locale ?k = None"
        using \<open>dictionaries g locale = Some d\<close> by (simp add: translation_def)
      from Get_missing [OF None] have "Get g d ?k = ?k \<or> Get g d ?k = ?r" .
      then show ?thesis
      proof
        assume "Get g d ?k = ?k"
        then show ?thesis using \<open>dictionaries g locale = Some d\<close> tr
          unfolding S_def Let_def unfolding second
          by (simp add: GetDictionary_def usable_def)
      next
        assume e: "Get g d ?k = ?r"
        show ?thesis
        proof (cases "?r \<noteq> [] \<and> ?r \<noteq> ?k")
          case True
          then show ?thesis using \<open>dictionaries g locale = Some d\<close> tr e r_usable
            unfolding S_def Let_def unfolding second
            by (simp add: GetDictionary_def usable_def)
        next
          case False
          then show ?thesis using \<open>dictionaries g locale = Some d\<close> tr e
            unfolding S_def Let_def unfolding second
            by (auto simp: GetDictionary_def usable_def)
        qed
      qed
    qed
  qed
qed

lemma wf_exampleRegistry: "wf_registry exampleRegistry"
  by (auto simp: wf_registry_def exampleRegistry_def enDict_def frDict_def split: if_splits)

lemma slugify_samples:
  "slugify ''Bye %s and %d'' = ''bye-0-and-1''"
  "slugify ''OK'' = ''ok''"
  "slugify ''goodbye'' = ''goodbye''"
  "slugify ''Unknown Text'' = ''unknown-text''"
  "slugify ''Dashboard'' = ''dashboard''"
  by code_simp+


lemma wf_Register: "wf_registry g \<Longrightarrow> wf_registry (Register g d)"
  by (auto simp: wf_registry_def Register_def)

lemma wf_Add: "wf_registry g \<Longrightarrow> wf_registry (Add g d key v)"
  by (auto simp: wf_registry_def Add_def)

lemma wf_SetDefaultLanguage: "wf_registry g \<Longrightarrow> wf_registry (SetDefaultLanguage g lang)"
  by (auto simp: wf_registry_def SetDefaultLanguage_def)

section \<open>Facts about the substitution\<close>


















lemma noEntry_example:
  "k \<notin> {''goodbye'', ''dashboard'', ''greet'', ''advanced-count'', ''draft''} \<Longrightarrow>
   noEntry exampleRegistry k"
  by (auto simp: noEntry_def translation_def exampleRegistry_def enDict_def frDict_def)


section \<open>Facts about the digit tokens of a key\<close>

lemma splitOn_nonempty [simp]: "splitOn sep s \<noteq> []"
  by (induction s) (auto split: list.splits)

lemma splitOn_Cons:
  "splitOn sep (c # cs) =
     (if c = sep then [] # splitOn sep cs
      else (c # hd (splitOn sep cs)) # tl (splitOn sep cs))"
  by (cases "splitOn sep cs") auto

lemma splitOn_append: "splitOn sep (a @ sep # b) = splitOn sep a @ splitOn sep b"
proof (induction a)
  case Nil
  show ?case by simp
next
  case (Cons c a)
  show ?case
  proof (cases "c = sep")
    case True
    with Cons show ?thesis by simp
  next
    case False
    have "splitOn sep ((c # a) @ sep # b) = (c # hd (splitOn sep a @ splitOn sep b)) # tl (splitOn sep a @ splitOn sep b)"
      using False Cons by (simp add: splitOn_Cons del: splitOn.simps)
    also have "\<dots> = ((c # hd (splitOn sep a)) # tl (splitOn sep a)) @ splitOn sep b"
      by simp
    also have "\<dots> = splitOn sep (c # a) @ splitOn sep b"
      using False by (simp add: splitOn_Cons del: splitOn.simps)
    finally show ?thesis .
  qed
qed

lemma splitOn_none: "sep \<notin> set s \<Longrightarrow> splitOn sep s = [s]"
  by (induction s) auto

lemma splitOn_chars: "tok \<in> set (splitOn sep s) \<Longrightarrow> set tok \<subseteq> set s"
proof (induction s arbitrary: tok)
  case Nil
  then show ?case by simp
next
  case (Cons c cs)
  show ?case
  proof (cases "c = sep")
    case True
    with Cons show ?thesis by auto
  next
    case False
    with Cons.prems have "tok = c # hd (splitOn sep cs) \<or> tok \<in> set (tl (splitOn sep cs))"
      by (simp add: splitOn_Cons del: splitOn.simps)
    moreover have "hd (splitOn sep cs) \<in> set (splitOn sep cs)" by simp
    moreover have "set (tl (splitOn sep cs)) \<subseteq> set (splitOn sep cs)"
      by (cases "splitOn sep cs") auto
    ultimately show ?thesis using Cons.IH by fastforce
  qed
qed

lemma isNumeral_Nil [simp]: "\<not> isNumeral []"
  by (simp add: isNumeral_def)

lemma digitTokens_Nil [simp]: "digitTokens [] = []"
  by (simp add: digitTokens_def)

lemma digitTokens_append:
  "digitTokens (a @ CHR ''-'' # b) = digitTokens a @ digitTokens b"
  by (simp add: digitTokens_def splitOn_append)

lemma digitTokens_dash [simp]: "digitTokens (CHR ''-'' # s) = digitTokens s"
  by (simp add: digitTokens_def)

lemma digitTokens_no_digit: "\<not> hasDigit s \<Longrightarrow> digitTokens s = []"
proof -
  assume nd: "\<not> hasDigit s"
  have "\<not> isNumeral tok" if "tok \<in> set (splitOn (CHR ''-'') s)" for tok
  proof
    assume n: "isNumeral tok"
    then obtain c where "c \<in> set tok" "isDigit c"
      by (cases tok) (auto simp: isNumeral_def)
    moreover have "set tok \<subseteq> set s" using that by (rule splitOn_chars)
    ultimately show False using nd by (auto simp: hasDigit_def list_ex_iff)
  qed
  then show ?thesis by (simp add: digitTokens_def filter_empty_conv)
qed

lemma digitTokens_numeral:
  "isNumeral s \<Longrightarrow> digitTokens s = [s]"
proof -
  assume n: "isNumeral s"
  then have "CHR ''-'' \<notin> set s"
    by (auto simp: isNumeral_def list_all_iff isDigit_def less_eq_char_def)
  then show ?thesis using n by (simp add: digitTokens_def splitOn_none)
qed

lemma filter_hd_tl:
  "hd xs = hd ys \<Longrightarrow> filter Q (tl xs) = filter Q (tl ys) \<Longrightarrow> xs \<noteq> [] \<Longrightarrow> ys \<noteq> [] \<Longrightarrow>
   filter Q xs = filter Q ys"
  by (cases xs; cases ys) auto

lemma replaceAll_dd_match:
  "replaceAll (CHR ''-'' # CHR ''-'' # rest) ''--'' ''-'' = CHR ''-'' # replaceAll rest ''--'' ''-''"
  by simp

lemma replaceAll_dd_skip:
  "\<not> prefix ''--'' (c # cs) \<Longrightarrow>
   replaceAll (c # cs) ''--'' ''-'' = c # replaceAll cs ''--'' ''-''"
  by (simp only: replaceAll.simps if_False)

lemma collapse_step_tokens:
  "hd (splitOn (CHR ''-'') (replaceAll s ''--'' ''-'')) = hd (splitOn (CHR ''-'') s) \<and>
   filter isNumeral (tl (splitOn (CHR ''-'') (replaceAll s ''--'' ''-'')))
     = filter isNumeral (tl (splitOn (CHR ''-'') s))"
proof (induction "length s" arbitrary: s rule: less_induct)
  case less
  show ?case
  proof (cases s)
    case Nil
    then show ?thesis by simp
  next
    case (Cons c cs)
    show ?thesis
    proof (cases "prefix ''--'' (c # cs)")
      case True
      then obtain rest where cs: "c = CHR ''-''" "cs = CHR ''-'' # rest" by (cases cs) auto
      have s_eq: "s = CHR ''-'' # CHR ''-'' # rest" using Cons cs by simp
      have "length rest < length s" using s_eq by simp
      from less [OF this]
      have ihr: "hd (splitOn (CHR ''-'') (replaceAll rest ''--'' ''-'')) = hd (splitOn (CHR ''-'') rest)"
        "filter isNumeral (tl (splitOn (CHR ''-'') (replaceAll rest ''--'' ''-'')))
          = filter isNumeral (tl (splitOn (CHR ''-'') rest))"
        by blast+
      have fr: "filter isNumeral (splitOn (CHR ''-'') (replaceAll rest ''--'' ''-''))
          = filter isNumeral (splitOn (CHR ''-'') rest)"
        by (rule filter_hd_tl [OF ihr splitOn_nonempty splitOn_nonempty])
      have l: "splitOn (CHR ''-'') (CHR ''-'' # replaceAll rest ''--'' ''-'')
          = [] # splitOn (CHR ''-'') (replaceAll rest ''--'' ''-'')"
        by simp
      have r: "splitOn (CHR ''-'') (CHR ''-'' # CHR ''-'' # rest) = [] # [] # splitOn (CHR ''-'') rest"
        by simp
      show ?thesis
        unfolding s_eq replaceAll_dd_match l r
        using fr by (simp only: list.sel filter.simps isNumeral_Nil if_False simp_thms)
    next
      case False
      have "length cs < length s" using Cons by simp
      from less [OF this]
      have ih: "hd (splitOn (CHR ''-'') (replaceAll cs ''--'' ''-'')) = hd (splitOn (CHR ''-'') cs)"
        "filter isNumeral (tl (splitOn (CHR ''-'') (replaceAll cs ''--'' ''-'')))
          = filter isNumeral (tl (splitOn (CHR ''-'') cs))"
        by simp_all
      have frc: "filter isNumeral (splitOn (CHR ''-'') (replaceAll cs ''--'' ''-''))
          = filter isNumeral (splitOn (CHR ''-'') cs)"
        by (rule filter_hd_tl [OF ih splitOn_nonempty splitOn_nonempty])
      show ?thesis
        unfolding Cons replaceAll_dd_skip [OF False] splitOn_Cons
        using ih frc by simp
    qed
  qed
qed

lemma digitTokens_collapse_step: "digitTokens (replaceAll s ''--'' ''-'') = digitTokens s"
proof -
  have h: "hd (splitOn (CHR ''-'') (replaceAll s ''--'' ''-'')) = hd (splitOn (CHR ''-'') s)"
    "filter isNumeral (tl (splitOn (CHR ''-'') (replaceAll s ''--'' ''-'')))
      = filter isNumeral (tl (splitOn (CHR ''-'') s))"
    using collapse_step_tokens [of s] by blast+
  show ?thesis
    unfolding digitTokens_def by (rule filter_hd_tl [OF h splitOn_nonempty splitOn_nonempty])
qed

lemma digitTokens_collapseDashes: "digitTokens (collapseDashes k) = digitTokens k"
proof (induction k rule: collapseDashes.induct)
  case (1 key)
  show ?case
  proof (cases "contains key ''--''")
    case True
    with "1.IH" show ?thesis
      by (subst collapseDashes.simps) (simp add: digitTokens_collapse_step)
  next
    case False
    then show ?thesis by (subst collapseDashes.simps) simp
  qed
qed

lemma digitTokens_all_dashes: "\<forall>c \<in> set d. c = CHR ''-'' \<Longrightarrow> digitTokens d = []"
  by (induction d) auto

lemma digitTokens_trailing:
  "\<forall>c \<in> set d. c = CHR ''-'' \<Longrightarrow> digitTokens (A @ d) = digitTokens A"
proof (cases d)
  case Nil
  then show ?thesis by simp
next
  case (Cons x d')
  assume a: "\<forall>c \<in> set d. c = CHR ''-''"
  with Cons have "x = CHR ''-''" "\<forall>c \<in> set d'. c = CHR ''-''" by auto
  then show ?thesis using Cons by (simp add: digitTokens_append digitTokens_all_dashes)
qed

lemma digitTokens_leading:
  "digitTokens (dropWhile (\<lambda>c. c = CHR ''-'') s) = digitTokens s"
  by (induction s) auto

lemma digitTokens_trim: "digitTokens (trim k ''-'') = digitTokens k"
proof -
  let ?Q = "\<lambda>c. c = CHR ''-''"
  let ?ys = "dropWhile ?Q k"
  have split: "?ys = trimBoth ?Q k @ rev (takeWhile ?Q (rev ?ys))"
    unfolding trimBoth_def by (metis rev_append rev_rev_ident takeWhile_dropWhile_id)
  have "\<forall>c \<in> set (rev (takeWhile ?Q (rev ?ys))). c = CHR ''-''"
    by (auto dest: set_takeWhileD)
  then have "digitTokens (trimBoth ?Q k @ rev (takeWhile ?Q (rev ?ys))) = digitTokens (trimBoth ?Q k)"
    by (rule digitTokens_trailing)
  with split have "digitTokens (trimBoth ?Q k) = digitTokens ?ys" by simp
  also have "\<dots> = digitTokens k" by (rule digitTokens_leading)
  finally show ?thesis by (simp add: trim_trimBoth)
qed

lemma digitTokens_join: "digitTokens (join xs ''-'') = concat (map digitTokens xs)"
  by (induction xs "''-''" rule: join.induct) (simp_all add: digitTokens_append)

lemma digitTokens_slugify:
  "digitTokens (slugify t) =
     concat (map digitTokens (slugParts 0 (length (argFindAll t)) (argSplit t)))"
  by (simp add: slugify_def digitTokens_trim digitTokens_collapseDashes digitTokens_join)

lemma length_argSplit: "length (argSplit s) = Suc (length (argFindAll s))"
  by (induction s rule: argSplit.induct) (auto split: list.splits)

lemma argSplit_first:
  "argSplit (d # rest) = p # ps \<Longrightarrow> p = [] \<or> hd p = d"
  by (cases rest) (auto split: if_splits list.splits)

lemma argSplit_nonempty [simp]: "argSplit s \<noteq> []"
  by (induction s rule: argSplit.induct) (auto split: list.splits)

lemma argFindAll_Cons_free:
  assumes "argFindAll p = []" and "p = [] \<or> \<not> (c = CHR ''%'' \<and> isVerb (hd p))"
  shows "argFindAll (c # p) = []"
  using assms by (cases p) auto

lemma parts_free: "p \<in> set (argSplit s) \<Longrightarrow> argFindAll p = []"
proof (induction s arbitrary: p rule: argSplit.induct)
  case (1 c d rest)
  show ?case
  proof (cases "c = CHR ''%'' \<and> isVerb d")
    case True
    with 1 show ?thesis by auto
  next
    case False
    obtain q qs where sp: "argSplit (d # rest) = q # qs"
      by (cases "argSplit (d # rest)") auto
    with False "1.prems" have "p = c # q \<or> p \<in> set qs" by auto
    then show ?thesis
    proof
      assume p: "p = c # q"
      have q: "argFindAll q = []" using "1.IH"(2) [OF False, of q] sp by simp
      have "q = [] \<or> hd q = d" using sp by (rule argSplit_first)
      then have "q = [] \<or> \<not> (c = CHR ''%'' \<and> isVerb (hd q))" using False by auto
      with q show ?thesis unfolding p by (rule argFindAll_Cons_free)
    next
      assume "p \<in> set qs"
      then show ?thesis using "1.IH"(2) [OF False, of p] sp by simp
    qed
  qed
qed auto

lemma argSplit_free: "argFindAll p = [] \<Longrightarrow> argSplit p = [p]"
  by (induction p rule: argSplit.induct) (auto split: if_splits)

lemma digitTokens_piece:
  assumes "argFindAll p = []"
  shows "digitTokens (slugify p) =
    (if p \<noteq> [] \<and> cleanPart p \<noteq> [] then digitTokens (replaceAll (cleanPart p) '' '' ''-'') else [])"
  by (simp add: digitTokens_slugify assms argSplit_free [OF assms])

lemma digitTokens_index: "digitTokens (itoa (int i)) = [itoa (int i)]"
proof -
  have "isNumeral (natDigits i)"
    using natDigits_digits [of i] natDigits_nonempty [of i]
    by (simp add: isNumeral_def list_all_iff)
  then show ?thesis by (simp add: itoa_nat digitTokens_numeral)
qed

lemma slugParts_tokens:
  assumes "\<forall>p \<in> set parts. argFindAll p = [] \<and> digitTokens (slugify p) = []"
  shows "concat (map digitTokens (slugParts i n parts))
    = map (\<lambda>j. itoa (int j)) [i..<min n (i + length parts)]"
  using assms
proof (induction parts arbitrary: i)
  case Nil
  show ?case by simp
next
  case (Cons p parts)
  then have free: "argFindAll p = []" and none: "digitTokens (slugify p) = []" by auto
  have piece: "concat (map digitTokens
      (if p \<noteq> [] \<and> cleanPart p \<noteq> [] then [replaceAll (cleanPart p) '' '' ''-''] else [])) = []"
    using none unfolding digitTokens_piece [OF free] by (auto split: if_splits)
  have rest: "concat (map digitTokens (slugParts (Suc i) n parts))
      = map (\<lambda>j. itoa (int j)) [Suc i..<min n (Suc i + length parts)]"
    using Cons by simp
  show ?case
  proof (cases "i < n")
    case True
    then have "[i..<min n (i + length (p # parts))] = i # [Suc i..<min n (Suc i + length parts)]"
      by (simp add: upt_conv_Cons)
    then show ?thesis using True piece rest
      by (simp add: digitTokens_index del: upt_Suc)
  next
    case False
    then have "[i..<min n (i + length (p # parts))] = []"
      "[Suc i..<min n (Suc i + length parts)] = []" by simp_all
    then show ?thesis using False piece rest by simp
  qed
qed

lemma parts_chars: "p \<in> set (argSplit s) \<Longrightarrow> set p \<subseteq> set s"
proof (induction s arbitrary: p rule: argSplit.induct)
  case (1 c d rest)
  show ?case
  proof (cases "c = CHR ''%'' \<and> isVerb d")
    case True
    with 1 show ?thesis by fastforce
  next
    case False
    obtain q qs where sp: "argSplit (d # rest) = q # qs"
      by (cases "argSplit (d # rest)") auto
    with False "1.prems" have "p = c # q \<or> p \<in> set qs" by auto
    then show ?thesis
    proof
      assume "p = c # q"
      moreover have "set q \<subseteq> set (d # rest)" using "1.IH"(2) [OF False, of q] sp by simp
      ultimately show ?thesis by auto
    next
      assume "p \<in> set qs"
      then have "set p \<subseteq> set (d # rest)" using "1.IH"(2) [OF False, of p] sp by simp
      then show ?thesis by auto
    qed
  qed
qed auto

lemma toLower_digit: "isDigit (toLowerRune r) \<Longrightarrow> isDigit r"
proof (cases "isUpper r")
  case False
  then show "isDigit (toLowerRune r) \<Longrightarrow> isDigit r" by (simp add: toLowerRune_def)
next
  case True
  assume d: "isDigit (toLowerRune r)"
  have lt: "(of_char r :: nat) < 256" by simp
  from True have "(65 \<le> (of_char r :: nat) \<and> (of_char r :: nat) \<le> 90) \<or>
      (192 \<le> (of_char r :: nat) \<and> (of_char r :: nat) \<le> 222)"
    by (auto simp: isUpper_def Let_def)
  then have "(of_char (toLowerRune r) :: nat) \<ge> 97"
    using True by (auto simp: toLowerRune_def)
  with d show ?thesis by (simp add: isDigit_def less_eq_char_def)
qed

lemma cleanPart_origin:
  "c \<in> set (cleanPart p) \<Longrightarrow> c = CHR '' '' \<or> (\<exists>r \<in> set p. c = toLowerRune r)"
proof -
  assume c: "c \<in> set (cleanPart p)"
  let ?m = "map (\<lambda>r. if isLowerAlnum r then r else CHR '' '') (map toLowerRune p)"
  have "set (trimSpace ?m) \<subseteq> set ?m"
    unfolding trimSpace_trimBoth by (rule set_mono_sublist) (rule trimBoth_sublist)
  moreover have "set (cleanPart p) \<subseteq> set (trimSpace ?m) \<union> {CHR '' ''}"
    unfolding cleanPart_def by (rule set_collapseSpaces)
  ultimately have "c \<in> set ?m \<or> c = CHR '' ''" using c by auto
  then show ?thesis by (auto split: if_splits)
qed

lemma piece_no_digit:
  assumes "\<not> hasDigit p"
  shows "\<not> hasDigit (replaceAll (cleanPart p) '' '' ''-'')"
proof
  assume "hasDigit (replaceAll (cleanPart p) '' '' ''-'')"
  then obtain c where c: "c \<in> set (cleanPart p)" "isDigit (if c = CHR '' '' then CHR ''-'' else c)"
    by (auto simp: hasDigit_def list_ex_iff replaceAll_char)
  then have "isDigit c" "c \<noteq> CHR '' ''"
    by (auto simp: isDigit_def less_eq_char_def split: if_splits)
  with c(1) obtain r where "r \<in> set p" "isDigit (toLowerRune r)"
    by (auto dest: cleanPart_origin)
  then have "\<exists>r \<in> set p. isDigit r" by (auto dest: toLower_digit)
  with assms show False by (simp add: hasDigit_def list_ex_iff)
qed

lemma no_digit_literalDigitFree:
  assumes "\<not> hasDigit t"
  shows "literalDigitFree t"
proof -
  have "digitTokens (slugify p) = []" if p: "p \<in> set (argSplit t)" for p
  proof -
    have "set p \<subseteq> set t" using p by (rule parts_chars)
    then have nd: "\<not> hasDigit p" using assms by (auto simp: hasDigit_def list_ex_iff)
    have "digitTokens (replaceAll (cleanPart p) '' '' ''-'') = []"
      using piece_no_digit [OF nd] by (rule digitTokens_no_digit)
    then show ?thesis by (simp add: digitTokens_piece [OF parts_free [OF p]])
  qed
  then show ?thesis by (simp add: literalDigitFree_def list_all_iff)
qed

lemma digit_tokens_literalDigitFree:
  assumes "literalDigitFree t"
  shows "digitTokens (slugify t) = indexNumerals (length (snd (normalize t)))"
proof -
  have "\<forall>p \<in> set (argSplit t). argFindAll p = [] \<and> digitTokens (slugify p) = []"
    using assms by (auto simp: literalDigitFree_def list_all_iff parts_free)
  from slugParts_tokens [OF this, of 0 "length (argFindAll t)"]
  show ?thesis
    by (simp add: digitTokens_slugify length_argSplit normalize_def indexNumerals_def)
qed

section \<open>Properties of the plural rule selector\<close>

text \<open>
  C6. \<open>determinePluralForm\<close> is the simplified rule table: the Slavic locales (ru, uk, be,
  pl) send 0 to zero, 1 to one, 2 to 4 to few and every other count to many; Arabic sends
  0 to zero, 1 to one, 2 to two, 3 to 10 to few, 11 to 99 to many and every other count to
  other; a locale outside the table uses the default rule (0 to zero, 1 to one, else
  other). The five sample values of the specification are instances.
\<close>

theorem determinePluralForm_table:
  "(l \<in> set slavic_locales \<longrightarrow> determinePluralForm l c = slavic_rule c) \<and>
   determinePluralForm ''ar'' c = arabic_rule c \<and>
   (l \<in> set default_locales \<longrightarrow> determinePluralForm l c = default_rule c) \<and>
   (l \<notin> set known_locales \<longrightarrow> determinePluralForm l c = default_rule c) \<and>
   determinePluralForm ''ru'' 2 = ''few'' \<and>
   determinePluralForm ''ru'' 5 = ''many'' \<and>
   determinePluralForm ''ar'' 2 = ''two'' \<and>
   determinePluralForm ''ar'' 100 = ''other'' \<and>
   determinePluralForm ''unknown'' 1 = ''one''"
  by (auto simp: determinePluralForm_def slavic_rule_def arabic_rule_def default_rule_def
      slavic_locales_def default_locales_def known_locales_def)

theorem determinePluralForm_table_witness:
  "''pl'' \<in> set slavic_locales \<and> determinePluralForm ''pl'' 3 = ''few'' \<and>
   determinePluralForm ''ar'' 3 = ''few'' \<and>
   ''fr'' \<in> set default_locales \<and> determinePluralForm ''fr'' 1 = ''one'' \<and>
   ''xx'' \<notin> set known_locales \<and> determinePluralForm ''xx'' 7 = ''other''"
  using determinePluralForm_table [of "''pl''" 3] determinePluralForm_table [of "''fr''" 1]
    determinePluralForm_table [of "''xx''" 7]
  by (simp add: known_locales_def default_locales_def slavic_locales_def default_rule_def
      slavic_rule_def arabic_rule_def)

text \<open>
  C10. For every locale and every integer count, negative ones included,
  \<open>determinePluralForm\<close> returns one of the six categories; a negative count falls through
  to the last branch: many for the Slavic locales, other for Arabic and for every locale
  under the default rule.
\<close>

theorem determinePluralForm_category:
  "determinePluralForm l c \<in> set plural_categories \<and>
   (c < 0 \<longrightarrow> determinePluralForm l c =
      (if l \<in> set slavic_locales then ''many'' else ''other''))"
  by (simp add: determinePluralForm_def plural_categories_def slavic_locales_def)

theorem determinePluralForm_category_witness:
  "(-3::int) < 0 \<and> determinePluralForm ''ru'' (-3) = ''many'' \<and>
   determinePluralForm ''ar'' (-3) = ''other'' \<and>
   determinePluralForm ''en'' (-3) = ''other''"
  using determinePluralForm_category [of "''ru''" "-3"]
    determinePluralForm_category [of "''ar''" "-3"]
    determinePluralForm_category [of "''en''" "-3"]
  by (simp add: slavic_locales_def)

section \<open>Properties of the plural template extractor\<close>

lemma extract_example:
  "extractPluralForm ''{count, plural, one {# item} other {# items}}'' ''one'' 1 = ''1 item''"
  by code_simp

text \<open>
  C5. \<open>extractPluralForm\<close> takes the first occurrence of the category followed by a
  space and an opening brace, and returns the empty string when there is none. Otherwise
  it reads the content after that brace with the depth starting at 1: when the depth never
  returns to 0 (the content stays open: no matching closing brace) it returns the empty
  string; when the content is a sub-template \<open>sub\<close> that stays open and is balanced,
  followed by a closing brace (the first point where the depth returns to 0), it returns \<open>sub\<close> with every \<open>#\<close> replaced by the decimal count, trimmed of
  surrounding white space. The sample of the specification is the last conjunct.
\<close>

theorem extractPluralForm_spec:
  "((\<forall>i. \<not> occursAt template (form @ '' {'') i) \<longrightarrow>
      extractPluralForm template form count = []) \<and>
   (firstOccurrence template (form @ '' {'') idx \<longrightarrow>
      (staysOpen (drop (idx + length (form @ '' {'')) template) \<longrightarrow>
         extractPluralForm template form count = []) \<and>
      (drop (idx + length (form @ '' {'')) template = sub @ CHR ''}'' # rest \<and>
       bal sub = 0 \<and> staysOpen sub \<longrightarrow>
         extractPluralForm template form count =
           trimSpace (replaceAll sub ''#'' (itoa count)))) \<and>
   extractPluralForm ''{count, plural, one {# item} other {# items}}'' ''one'' 1 = ''1 item''"
proof (intro conjI impI)
  assume "\<forall>i. \<not> occursAt template (form @ '' {'') i"
  then have "index template (form @ '' {'') = None" by (simp add: index_None_iff)
  then show "extractPluralForm template form count = []"
    by (simp add: extractPluralForm_def)
next
  assume f: "firstOccurrence template (form @ '' {'') idx"
    and "staysOpen (drop (idx + length (form @ '' {'')) template)"
  then have "closeScan 1 0 (drop (idx + length (form @ '' {'')) template) = 0"
    by (intro closeScan_none) (auto simp: staysOpen_def)
  moreover from f have "index template (form @ '' {'') = Some idx" by (simp add: index_Some_iff)
  ultimately show "extractPluralForm template form count = []"
    by (simp add: extractPluralForm_def Let_def)
next
  assume f: "firstOccurrence template (form @ '' {'') idx"
    and h: "drop (idx + length (form @ '' {'')) template = sub @ CHR ''}'' # rest \<and>
       bal sub = 0 \<and> staysOpen sub"
  from h have "closeScan 1 0 (sub @ CHR ''}'' # rest) = 0 + length sub"
    by (intro closeScan_found) (auto simp: staysOpen_def)
  moreover from f have "index template (form @ '' {'') = Some idx" by (simp add: index_Some_iff)
  ultimately show "extractPluralForm template form count =
      trimSpace (replaceAll sub ''#'' (itoa count))"
    using h by (cases "sub = []") (simp_all add: extractPluralForm_def Let_def)
next
  show "extractPluralForm ''{count, plural, one {# item} other {# items}}'' ''one'' 1 = ''1 item''"
    by (rule extract_example)
qed


theorem extractPluralForm_spec_witness:
  "(\<forall>i. \<not> occursAt ''{count, plural, one {# item} other {# items}}'' (''few'' @ '' {'') i) \<and>
   extractPluralForm ''{count, plural, one {# item} other {# items}}'' ''few'' 3 = [] \<and>
   firstOccurrence ''one {abc'' (''one'' @ '' {'') 0 \<and>
   staysOpen (drop (0 + length (''one'' @ '' {'')) ''one {abc'') \<and>
   extractPluralForm ''one {abc'' ''one'' 5 = [] \<and>
   firstOccurrence ''x one { # {a} } y'' (''one'' @ '' {'') 2 \<and>
   drop (2 + length (''one'' @ '' {'')) ''x one { # {a} } y'' = '' # {a} '' @ CHR ''}'' # '' y'' \<and>
   bal '' # {a} '' = 0 \<and> staysOpen '' # {a} '' \<and>
   extractPluralForm ''x one { # {a} } y'' ''one'' 7 = ''7 {a}''"
proof -
  have a1: "\<forall>i. \<not> occursAt ''{count, plural, one {# item} other {# items}}'' (''few'' @ '' {'') i"
    unfolding index_None_iff [symmetric] by code_simp
  have b1: "firstOccurrence ''one {abc'' (''one'' @ '' {'') 0"
    unfolding index_Some_iff [symmetric] by code_simp
  have b2: "staysOpen (drop (0 + length (''one'' @ '' {'')) ''one {abc'')"
    unfolding staysOpen_def all_prefixes_iff by code_simp
  have c1: "firstOccurrence ''x one { # {a} } y'' (''one'' @ '' {'') 2"
    unfolding index_Some_iff [symmetric] by code_simp
  have c2: "drop (2 + length (''one'' @ '' {'')) ''x one { # {a} } y'' = '' # {a} '' @ CHR ''}'' # '' y''"
    by code_simp
  have c3: "bal '' # {a} '' = 0" by code_simp
  have c4: "staysOpen '' # {a} ''"
    unfolding staysOpen_def all_prefixes_iff by code_simp
  have c5: "trimSpace (replaceAll '' # {a} '' ''#'' (itoa 7)) = ''7 {a}''" by code_simp
  from extractPluralForm_spec [where template = "''{count, plural, one {# item} other {# items}}''" and form = "''few''" and count = 3] a1
  have r1: "extractPluralForm ''{count, plural, one {# item} other {# items}}'' ''few'' 3 = []"
    by blast
  from extractPluralForm_spec [where template = "''one {abc''" and form = "''one''" and idx = 0 and count = 5] b1 b2
  have r2: "extractPluralForm ''one {abc'' ''one'' 5 = []"
    by blast
  from extractPluralForm_spec [where template = "''x one { # {a} } y''" and form = "''one''" and idx = 2 and sub = "'' # {a} ''" and rest = "'' y''" and count = 7] c1 c2 c3 c4
  have r3: "extractPluralForm ''x one { # {a} } y'' ''one'' 7 = trimSpace (replaceAll '' # {a} '' ''#'' (itoa 7))"
    by blast
  show ?thesis using a1 b1 b2 c1 c2 c3 c4 r1 r2 r3 c5 by simp
qed

section \<open>Properties of the translation functions\<close>

text \<open>
  C1. The claim: when the locale's dictionary maps the key to the key itself and the
  default dictionary maps it to another translation, \<open>T\<close> uses the default translation.
  In the example registry the French dictionary maps \<open>goodbye\<close> to \<open>goodbye\<close> and the
  English (default) one maps it to \<open>Goodbye\<close>: \<open>T\<close> at \<open>fr\<close> returns \<open>goodbye\<close>, the
  default dictionary being consulted only when the locale has no dictionary at all, while
  \<open>S\<close> on the same key does retry and returns \<open>Goodbye\<close>.
\<close>

theorem T_sentinel_not_retried:
  "translation exampleRegistry ''fr'' ''goodbye'' = Some ''goodbye'' \<and>
   translation exampleRegistry (currentLang exampleRegistry) ''goodbye'' = Some ''Goodbye'' \<and>
   T exampleRegistry ''goodbye'' [] ''fr'' = ''goodbye'' \<and>
   S exampleRegistry ''goodbye'' ''fr'' = ''Goodbye''"
  by code_simp


lemma P_sample:
  "contains ''{count, plural, zero {no items} one {# item} other {# items}}'' ''{count, plural'' \<and>
   determinePluralForm ''en'' 0 = ''zero'' \<and>
   extractPluralForm ''{count, plural, zero {no items} one {# item} other {# items}}'' ''zero'' 0
     = ''no items''"
  by code_simp


text \<open>
  C4. In a well-formed registry \<open>P\<close> is the policy of the specification: the raw template
  is the locale's entry, else the default dictionary's, else the key; with the plural
  marker the extraction is tried with the category of the locale, then with \<open>other\<close>;
  when both fail, or without the marker, the result is the raw template with every
  \<open>{count}\<close> replaced by the decimal count. On the sample template, count 0 at \<open>en\<close>
  gives \<open>no items\<close>.
\<close>

theorem P_policy:
  assumes "wf_registry g"
  shows "P g key count locale = P_spec g key count locale \<and>
    (rawTemplate_spec g ''en'' key = ''{count, plural, zero {no items} one {# item} other {# items}}''
      \<longrightarrow> P g key 0 ''en'' = ''no items'')"
proof -
  have eq: "P g key c l = P_spec g key c l" for c l
    unfolding P_def P_spec_def P_lookup [OF assms] by (simp add: Let_def)
  show ?thesis using eq [of 0 "''en''"] P_sample by (simp add: eq P_spec_def Let_def)
qed

theorem P_policy_witness:
  "wf_registry exampleRegistry \<and>
   rawTemplate_spec exampleRegistry ''en'' ''advanced-count'' =
     ''{count, plural, zero {no items} one {# item} other {# items}}'' \<and>
   P exampleRegistry ''advanced-count'' 0 ''en'' = ''no items'' \<and>
   P exampleRegistry ''advanced-count'' 5 ''fr'' = ''5 items'' \<and>
   P exampleRegistry ''{count} things'' 3 ''de'' = ''3 things''"
proof -
  have r: "rawTemplate_spec exampleRegistry ''en'' ''advanced-count'' =
     ''{count, plural, zero {no items} one {# item} other {# items}}''"
    by code_simp
  have v1: "P_spec exampleRegistry ''advanced-count'' 5 ''fr'' = ''5 items''" by code_simp
  have v2: "P_spec exampleRegistry ''{count} things'' 3 ''de'' = ''3 things''" by code_simp
  show ?thesis
    using wf_exampleRegistry r v1 v2
      P_policy [OF wf_exampleRegistry, of "''advanced-count''" 5 "''fr''"]
      P_policy [OF wf_exampleRegistry, of "''{count} things''" 3 "''de''"]
    by simp
qed


section \<open>Properties of the substitution and of the fallbacks\<close>











text \<open>
  C8, the claim as stated fails. The French dictionary has an entry for the key \<open>draft\<close>
  derived from the text \<open>Draft\<close>; the entry is the empty string, which is not the key,
  and \<open>S\<close> at \<open>fr\<close> returns the text \<open>Draft\<close> and not the entry.
\<close>

theorem S_empty_entry_counterexample:
  "translation exampleRegistry ''fr'' (slugify ''Draft'') = Some [] \<and>
   slugify ''Draft'' \<noteq> [] \<and>
   S exampleRegistry ''Draft'' ''fr'' \<noteq> [] \<and>
   S exampleRegistry ''Draft'' ''fr'' = ''Draft''"
  by code_simp


text \<open>
  C8, amended. In every registry \<open>S\<close> returns the entry of the derived key in the
  locale's dictionary when that entry is found (present and not the key itself, the
  not-found sentinel) and is not empty; failing that, the entry in the default dictionary
  under the same condition; otherwise the original text. When no dictionary has an entry
  for the key of \<open>Unknown Text\<close>, \<open>S\<close> at \<open>fr\<close> returns \<open>Unknown Text\<close>.
\<close>

theorem S_fallback:
  "S g text locale =
    (case usable (slugify text) (translation g locale (slugify text)) of
       Some tr \<Rightarrow> tr
     | None \<Rightarrow> (case usable (slugify text) (translation g (currentLang g) (slugify text)) of
                  Some tr \<Rightarrow> tr
                | None \<Rightarrow> text)) \<and>
   (noEntry g (slugify ''Unknown Text'') \<longrightarrow> S g ''Unknown Text'' ''fr'' = ''Unknown Text'')"
  by (simp add: S_cases_general usable_def noEntry_def)

theorem S_fallback_witness:
  "noEntry exampleRegistry (slugify ''Unknown Text'') \<and>
   S exampleRegistry ''Unknown Text'' ''fr'' = ''Unknown Text'' \<and>
   S exampleRegistry ''Dashboard'' ''fr'' = ''Tableau de bord'' \<and>
   S exampleRegistry ''goodbye'' ''fr'' = ''Goodbye''"
proof -
  have h: "noEntry exampleRegistry (slugify ''Unknown Text'')"
    unfolding slugify_samples by (rule noEntry_example) simp
  have v: "translation exampleRegistry ''fr'' ''dashboard'' = Some ''Tableau de bord''"
    "translation exampleRegistry ''fr'' ''goodbye'' = Some ''goodbye''"
    "translation exampleRegistry (currentLang exampleRegistry) ''goodbye'' = Some ''Goodbye''"
    by code_simp+
  show ?thesis
    using h v
      S_fallback [of exampleRegistry "''Unknown Text''" "''fr''"]
      S_fallback [of exampleRegistry "''Dashboard''" "''fr''"]
      S_fallback [of exampleRegistry "''goodbye''" "''fr''"]
    by (simp add: slugify_samples usable_def)
qed

section \<open>Properties of the key deriver\<close>

text \<open>
  C9. \<open>slugify\<close> is a function of its input text alone (it reads no state, so equal
  inputs give equal keys), and it is idempotent: the key of a key is that key.
\<close>

theorem slugify_idempotent: "slugify (slugify t) = slugify t"
  by (rule slugify_key) (rule slugify_isKey)


text \<open>
  C3, the claim as stated fails. The text \<open>2 %s\<close> has one format token, and its key
  \<open>2-0\<close> has two digit tokens, \<open>2\<close> and \<open>0\<close>: a literal digit of the text is not
  told apart from an index.
\<close>

theorem digit_tokens_counterexample:
  "digitTokens (slugify ''2 %s'') = [''2'', ''0''] \<and>
   snd (normalize ''2 %s'') = [''%s''] \<and>
   indexNumerals (length (snd (normalize ''2 %s''))) = [''0''] \<and>
   length (digitTokens (slugify ''2 %s'')) \<noteq> length (snd (normalize ''2 %s''))"
  by code_simp


text \<open>
  C3, amended. For every text that is \<open>literalDigitFree\<close> the digit tokens of the key of
  \<open>slugify\<close> are exactly the numerals \<open>0\<close> to \<open>n - 1\<close> in this order, where \<open>n\<close> is the
  number of matches that \<open>normalize\<close> returns, so there are \<open>n\<close> of them; and every
  text without a decimal digit is \<open>literalDigitFree\<close>.
\<close>

theorem digit_tokens_indices:
  "(literalDigitFree t \<longrightarrow>
      digitTokens (slugify t) = indexNumerals (length (snd (normalize t))) \<and>
      length (digitTokens (slugify t)) = length (snd (normalize t))) \<and>
   (\<not> hasDigit t \<longrightarrow> literalDigitFree t)"
  by (simp add: digit_tokens_literalDigitFree no_digit_literalDigitFree indexNumerals_def)

theorem digit_tokens_indices_witness:
  "literalDigitFree ''v2 beta %s and %d'' \<and>
   digitTokens (slugify ''v2 beta %s and %d'') = [''0'', ''1''] \<and>
   \<not> hasDigit ''Welcome %s, you have %d messages'' \<and>
   literalDigitFree ''Welcome %s, you have %d messages'' \<and>
   digitTokens (slugify ''Welcome %s, you have %d messages'') = [''0'', ''1'']"
proof -
  have a: "literalDigitFree ''v2 beta %s and %d''" by code_simp
  have b: "\<not> hasDigit ''Welcome %s, you have %d messages''" by code_simp
  have v: "indexNumerals (length (snd (normalize ''v2 beta %s and %d''))) = [''0'', ''1'']"
    "indexNumerals (length (snd (normalize ''Welcome %s, you have %d messages''))) = [''0'', ''1'']"
    by code_simp+
  show ?thesis
    using a b v digit_tokens_indices [of "''v2 beta %s and %d''"]
      digit_tokens_indices [of "''Welcome %s, you have %d messages''"]
    by simp
qed

end
